theory Spec2Isabelle
  imports Complex_Main "HOL-Library.Word"
begin

section \<open>JavaScript strings and the string primitives used by the estimator\<close>

text \<open>
  A JavaScript string is a sequence of UTF-16 code units; a code unit is modelled by its
  numeric value. \<open>length\<close> of the list is the \<open>.length\<close> of the string. Numbers of the
  program are IEEE doubles; they are modelled as exact reals, so rounding is abstracted.
\<close>

type_synonym jsstring = "nat list"

definition js :: "string \<Rightarrow> jsstring" where
  "js s = map of_char s"

text \<open>The class \<open>\s\<close> of a regular expression, which is also what \<open>trim\<close> removes:
  TAB LF VT FF CR SPACE, U+00A0, U+1680, U+2000..U+200A, U+2028, U+2029, U+202F, U+205F,
  U+3000, U+FEFF.\<close>

definition isSpace :: "nat \<Rightarrow> bool" where
  "isSpace c \<longleftrightarrow>
     (9 \<le> c \<and> c \<le> 13) \<or> c = 32 \<or> c = 160 \<or> c = 5760 \<or> (8192 \<le> c \<and> c \<le> 8202) \<or>
     c = 8232 \<or> c = 8233 \<or> c = 8239 \<or> c = 8287 \<or> c = 12288 \<or> c = 65279"

text \<open>The class \<open>\w\<close>: \<open>[A-Za-z0-9_]\<close>.\<close>

definition isWordChar :: "nat \<Rightarrow> bool" where
  "isWordChar c \<longleftrightarrow>
     (48 \<le> c \<and> c \<le> 57) \<or> (65 \<le> c \<and> c \<le> 90) \<or> c = 95 \<or> (97 \<le> c \<and> c \<le> 122)"

text \<open>The class \<open>[.,!?;:]\<close>: code units 46, 44, 33, 63, 59, 58.\<close>

definition isPunctChar :: "nat \<Rightarrow> bool" where
  "isPunctChar c \<longleftrightarrow> c = 46 \<or> c = 44 \<or> c = 33 \<or> c = 63 \<or> c = 59 \<or> c = 58"

text \<open>\<open>s.trim()\<close>\<close>

definition trim :: "jsstring \<Rightarrow> jsstring" where
  "trim s = rev (dropWhile isSpace (rev (dropWhile isSpace s)))"

text \<open>\<open>text.split('\n')\<close>: the pieces between line feeds (code unit 10); \<open>piece\<close> holds
  the code units read since the last separator.\<close>

fun splitNewline :: "jsstring \<Rightarrow> jsstring \<Rightarrow> jsstring list" where
  "splitNewline piece [] = [piece]"
| "splitNewline piece (c # cs) =
     (if c = 10 then piece # splitNewline [] cs else splitNewline (piece @ [c]) cs)"

text \<open>\<open>text.split(/\s+/)\<close>: the pieces between maximal runs of white space.\<close>

function splitWhitespace :: "jsstring \<Rightarrow> jsstring \<Rightarrow> jsstring list" where
  "splitWhitespace piece [] = [piece]"
| "splitWhitespace piece (c # cs) =
     (if isSpace c then piece # splitWhitespace [] (dropWhile isSpace cs)
      else splitWhitespace (piece @ [c]) cs)"
  by pat_completeness auto
termination
  by (relation "measure (\<lambda>(piece, s). length s)")
     (auto simp: length_dropWhile_le le_imp_less_Suc)

text \<open>
  The separator of \<open>line.split(/(\s+|\b[.,!?;:]+\b)/g)\<close>. The assertion \<open>\b\<close> holds
  between two positions when exactly one of the neighbouring code units is a word
  character; the start and the end of the input count as non-word.
\<close>

definition isWordOpt :: "nat option \<Rightarrow> bool" where
  "isWordOpt c = (case c of None \<Rightarrow> False | Some x \<Rightarrow> isWordChar x)"

definition wordBoundary :: "nat option \<Rightarrow> nat option \<Rightarrow> bool" where
  "wordBoundary l r \<longleftrightarrow> isWordOpt l \<noteq> isWordOpt r"

definition headOpt :: "jsstring \<Rightarrow> nat option" where
  "headOpt s = (case s of [] \<Rightarrow> None | c # _ \<Rightarrow> Some c)"

text \<open>\<open>[.,!?;:]+\b\<close> at the start of \<open>s\<close>: the greedy \<open>+\<close> first tries to take one more
  code unit and falls back to stopping here; the result is the length matched.\<close>

fun matchPunctRun :: "jsstring \<Rightarrow> nat option" where
  "matchPunctRun [] = None"
| "matchPunctRun (c # cs) =
     (if isPunctChar c then
        (case matchPunctRun cs of
           Some n \<Rightarrow> Some (Suc n)
         | None \<Rightarrow> if wordBoundary (Some c) (headOpt cs) then Some 1 else None)
      else None)"

text \<open>The whole separator at one position: \<open>prev\<close> is the code unit before the position,
  \<open>rest\<close> the input from the position on. The first alternative \<open>\s+\<close> wins when it
  matches.\<close>

definition matchSeparator :: "nat option \<Rightarrow> jsstring \<Rightarrow> nat option" where
  "matchSeparator prev rest =
     (case takeWhile isSpace rest of
        [] \<Rightarrow> if wordBoundary prev (headOpt rest) then matchPunctRun rest else None
      | sp \<Rightarrow> Some (length sp))"

text \<open>
  \<open>String.prototype.split\<close> with a separator that has one capturing group: the scan
  moves through the input; where the separator matches, the piece read so far and the
  captured separator are both emitted and the scan goes on behind the match; the last
  piece is emitted at the end of the input.
\<close>

function splitTokens :: "nat option \<Rightarrow> jsstring \<Rightarrow> jsstring \<Rightarrow> jsstring list" where
  "splitTokens prev piece [] = [piece]"
| "splitTokens prev piece (c # cs) =
     (case matchSeparator prev (c # cs) of
        None \<Rightarrow> splitTokens (Some c) (piece @ [c]) cs
      | Some n \<Rightarrow>
          piece # take n (c # cs) #
          splitTokens (Some (last (take n (c # cs)))) [] (drop n (c # cs)))"
  by pat_completeness auto
termination
proof (relation "measure (\<lambda>(prev, piece, s). length s)")
  show "wf (measure (\<lambda>(prev, piece, s). length s))" by simp
next
  fix prev :: "nat option" and piece :: jsstring and c :: nat and cs :: jsstring
  show "((Some c, piece @ [c], cs), (prev, piece, c # cs))
          \<in> measure (\<lambda>(prev, piece, s). length s)"
    by simp
next
  fix prev :: "nat option" and piece :: jsstring and c :: nat and cs :: jsstring and n :: nat
  assume m: "matchSeparator prev (c # cs) = Some n"
  have run: "matchPunctRun s = Some k \<Longrightarrow> 0 < k" for s k
    by (induction s arbitrary: k) (auto split: if_splits option.splits)
  have "0 < n"
  proof (cases "takeWhile isSpace (c # cs)")
    case Nil
    with m have "matchPunctRun (c # cs) = Some n"
      by (simp add: matchSeparator_def split: if_splits)
    then show ?thesis by (rule run)
  next
    case (Cons a as)
    with m show ?thesis by (simp add: matchSeparator_def)
  qed
  then show "((Some (last (take n (c # cs))), [], drop n (c # cs)), (prev, piece, c # cs))
          \<in> measure (\<lambda>(prev, piece, s). length s)"
    by simp
qed

section \<open>The caption timing estimator: \<open>segmentTextForKaraoke\<close>\<close>

record WordSegment =
  word :: jsstring
  startTime :: real
  endTime :: real

record LineSegment =
  lineText :: jsstring
  words :: "WordSegment list"
  duration :: real
  relativeStartTime :: real
  relativeEndTime :: real

text \<open>\<open>/^[.,!?;:]+$/.test(word.trim())\<close>\<close>

definition isPunctuation :: "jsstring \<Rightarrow> bool" where
  "isPunctuation w \<longleftrightarrow> trim w \<noteq> [] \<and> list_all isPunctChar (trim w)"

text \<open>The body of the inner \<open>map\<close> callback that chooses \<open>estimatedWordDuration\<close>; the
  second test is \<open>/\s+/.test(word)\<close>, true when the token contains white space.\<close>

definition estimatedWordDuration :: "real \<Rightarrow> jsstring \<Rightarrow> real" where
  "estimatedWordDuration baseAverageWordDuration w =
     (if isPunctuation w then 0.25
      else if list_ex isSpace w then 0.08
      else max 0.08 (real (length w) * 0.09 + baseAverageWordDuration / 2))"

text \<open>The inner \<open>map\<close> over the tokens of one line; \<open>wordTimeOffset\<close> is the variable
  the callback advances.\<close>

fun wordSegments :: "real \<Rightarrow> real \<Rightarrow> jsstring list \<Rightarrow> WordSegment list" where
  "wordSegments base wordTimeOffset [] = []"
| "wordSegments base wordTimeOffset (w # ws) =
     (let estimated = estimatedWordDuration base w
      in \<lparr>word = trim w, startTime = wordTimeOffset, endTime = wordTimeOffset + estimated\<rparr>
         # wordSegments base (wordTimeOffset + estimated) ws)"

text \<open>\<open>lineDuration\<close>, advanced by the same callback from 0.\<close>

definition lineDurationOf :: "real \<Rightarrow> jsstring list \<Rightarrow> real" where
  "lineDurationOf base ws = foldl (\<lambda>acc w. acc + estimatedWordDuration base w) 0 ws"

definition wordsInLine :: "jsstring \<Rightarrow> jsstring list" where
  "wordsInLine line = filter (\<lambda>w. length w > 0) (splitTokens None [] line)"

text \<open>The outer \<open>map\<close> over the lines; \<open>overallTimeOffset\<close> is the variable it advances.\<close>

fun lineSegments :: "real \<Rightarrow> real \<Rightarrow> jsstring list \<Rightarrow> LineSegment list" where
  "lineSegments base overallTimeOffset [] = []"
| "lineSegments base overallTimeOffset (line # rest) =
     (let ws = wordsInLine line;
          lineDuration = lineDurationOf base ws
      in \<lparr>lineText = trim line,
          words = wordSegments base 0 ws,
          duration = lineDuration,
          relativeStartTime = overallTimeOffset,
          relativeEndTime = overallTimeOffset + lineDuration\<rparr>
         # lineSegments base (overallTimeOffset + lineDuration) rest)"

definition nonBlankLines :: "jsstring \<Rightarrow> jsstring list" where
  "nonBlankLines t = filter (\<lambda>line. length (trim line) > 0) (splitNewline [] t)"

definition totalWords :: "jsstring \<Rightarrow> nat" where
  "totalWords t = length (filter (\<lambda>w. length w > 0) (splitWhitespace [] t))"

definition baseAverageWordDuration :: "jsstring \<Rightarrow> real \<Rightarrow> real" where
  "baseAverageWordDuration t totalAudiobookDuration =
     max 0.1 (totalAudiobookDuration / real (max (totalWords t) 1))"

definition segmentTextForKaraoke :: "jsstring \<Rightarrow> real \<Rightarrow> LineSegment list" where
  "segmentTextForKaraoke t totalAudiobookDuration =
     (let lines = nonBlankLines t
      in if length lines = 0 then []
         else lineSegments (baseAverageWordDuration t totalAudiobookDuration) 0 lines)"

subsection \<open>The line and word lookup of the caption overlay\<close>

text \<open>The two nested loops of \<open>drawMainVisualizer\<close> that find \<open>currentLineIndex\<close> and
  \<open>currentWordIndex\<close>; both start at \<open>-1\<close>, and the scan stops at the first line whose
  interval holds the time. \<open>j\<close> and \<open>i\<close> are the loop counters. The subtraction that
  gives \<open>timeInLine\<close> is exact here, while the program rounds it to a double.\<close>

fun findWord :: "real \<Rightarrow> int \<Rightarrow> WordSegment list \<Rightarrow> int" where
  "findWord timeInLine j [] = -1"
| "findWord timeInLine j (w # ws) =
     (if timeInLine \<ge> startTime w \<and> timeInLine < endTime w then j
      else findWord timeInLine (j + 1) ws)"

fun findLine :: "real \<Rightarrow> int \<Rightarrow> LineSegment list \<Rightarrow> int \<times> int" where
  "findLine currentTime i [] = (-1, -1)"
| "findLine currentTime i (line # rest) =
     (if currentTime \<ge> relativeStartTime line \<and> currentTime < relativeEndTime line
      then (i, findWord (currentTime - relativeStartTime line) 0 (words line))
      else findLine currentTime (i + 1) rest)"

definition currentLineAndWord :: "LineSegment list \<Rightarrow> real \<Rightarrow> int \<times> int" where
  "currentLineAndWord audiobookLinesWithTiming currentTime =
     findLine currentTime 0 audiobookLinesWithTiming"

text \<open>The overlay block around the loops runs only while the narration plays, the
  caption effect is enabled and there is at least one line; otherwise no lookup is made.
  \<open>currentTime\<close> is the clock minus \<open>audiobookScrollStartTimeRef\<close>.\<close>

definition captionLookup ::
  "bool \<Rightarrow> bool \<Rightarrow> LineSegment list \<Rightarrow> real \<Rightarrow> (int \<times> int) option" where
  "captionLookup isAudiobookPlaying isKaraokeEffectEnabled audiobookLinesWithTiming currentTime =
     (if isAudiobookPlaying \<and> length audiobookLinesWithTiming > 0 \<and> isKaraokeEffectEnabled
      then Some (currentLineAndWord audiobookLinesWithTiming currentTime)
      else None)"

section \<open>The playback scheduler: \<open>playAudioBuffer\<close> and \<open>stopAllAudio\<close>\<close>

text \<open>An \<open>AudioBuffer\<close> of the Web Audio API; its \<open>duration\<close> is the number of sample
  frames over the sample rate.\<close>

record AudioBuffer =
  numberOfChannels :: nat
  sampleRate :: nat
  frameCount :: nat

definition buffer_duration :: "AudioBuffer \<Rightarrow> real" where
  "buffer_duration b = real (frameCount b) / real (sampleRate b)"

text \<open>An \<open>AudioBufferSourceNode\<close> made by \<open>playAudioBuffer\<close>: its buffer, the time given
  to \<open>source.start\<close>, whether \<open>stop()\<close> was called and whether it is connected to
  the output node.\<close>

record SourceNode =
  node_buffer :: AudioBuffer
  startedAt :: real
  stopped :: bool
  connected :: bool

text \<open>
  The refs the scheduler works on: \<open>nextStartTimeRef\<close>, the source nodes created so far
  (a node's handle is its index) and \<open>sourceNodesRef\<close>, the set of handles still
  playing, in insertion order.
\<close>

record Scheduler =
  nextStartTime :: real
  nodes :: "SourceNode list"
  sourceNodes :: "nat list"

definition initialScheduler :: Scheduler where
  "initialScheduler = \<lparr>nextStartTime = 0, nodes = [], sourceNodes = []\<rparr>"

text \<open>\<open>playAudioBuffer\<close> on a running audio context whose \<open>currentTime\<close> reads
  \<open>now\<close>. The statements that set user-interface flags and reset the caption and scene
  refs do not touch the three refs above and are left out.\<close>

definition playAudioBuffer :: "Scheduler \<Rightarrow> real \<Rightarrow> AudioBuffer \<Rightarrow> Scheduler" where
  "playAudioBuffer s now buffer =
     (let startAt = max (nextStartTime s) now;
          source = length (nodes s)
      in \<lparr>nextStartTime = startAt + buffer_duration buffer,
          nodes = nodes s @
            [\<lparr>node_buffer = buffer, startedAt = startAt, stopped = False, connected = True\<rparr>],
          sourceNodes = (if source \<in> set (sourceNodes s) then sourceNodes s
                         else sourceNodes s @ [source])\<rparr>)"

text \<open>The listener of the \<open>ended\<close> event of one source, as far as it changes the
  active set.\<close>

definition sourceEnded :: "Scheduler \<Rightarrow> nat \<Rightarrow> Scheduler" where
  "sourceEnded s source = s\<lparr>sourceNodes := removeAll source (sourceNodes s)\<rparr>"

text \<open>\<open>stopAllAudio\<close>: the loop over the set, then \<open>clear()\<close> and the reset of the
  cursor.\<close>

definition stopSource :: "SourceNode list \<Rightarrow> nat \<Rightarrow> SourceNode list" where
  "stopSource ns source =
     (if source < length ns
      then ns[source := (ns ! source)\<lparr>stopped := True, connected := False\<rparr>]
      else ns)"

definition stopAllAudio :: "Scheduler \<Rightarrow> Scheduler" where
  "stopAllAudio s =
     \<lparr>nextStartTime = 0,
      nodes = foldl stopSource (nodes s) (sourceNodes s),
      sourceNodes = []\<rparr>"

text \<open>A sequence of chunks submitted in order; each comes with the reading of the clock at
  its submission.\<close>

fun playAll :: "Scheduler \<Rightarrow> (real \<times> AudioBuffer) list \<Rightarrow> Scheduler" where
  "playAll s [] = s"
| "playAll s ((now, buffer) # rest) = playAll (playAudioBuffer s now buffer) rest"

text \<open>The start times of the nodes created after the first \<open>k\<close>.\<close>

definition startsFrom :: "nat \<Rightarrow> Scheduler \<Rightarrow> real list" where
  "startsFrom k s = map startedAt (drop k (nodes s))"

text \<open>Every handle in the active set names a node that exists.\<close>

definition handlesValid :: "Scheduler \<Rightarrow> bool" where
  "handlesValid s \<longleftrightarrow> list_all (\<lambda>h. h < length (nodes s)) (sourceNodes s)"

section \<open>The retry loop of \<open>generateTextToSpeech\<close>\<close>

text \<open>
  One call of the remote service, with the decoding of its stream: it either completes
  after pushing some decoded buffers, or throws after pushing some. \<open>audioBuffers\<close> is
  declared outside the loop, so buffers pushed by an attempt that throws later stay in it.
\<close>

datatype ('b, 'e) attempt = Completed "'b list" | Thrown "'b list" 'e

datatype 'e tts_error = ApiKeyNotSet | ServiceError 'e | RetriesExhausted

record ('b, 'e) tts_run =
  attemptsMade :: nat
  delays :: "nat list"
  outcome :: "'e tts_error + 'b list"

text \<open>The \<open>while\<close> loop; \<open>service k\<close> is what call number \<open>k\<close> (from 0) of the service
  does, \<open>waited\<close> collects the arguments of \<open>setTimeout\<close> in milliseconds.\<close>

function ttsLoop ::
  "(nat \<Rightarrow> ('b, 'e) attempt) \<Rightarrow> int \<Rightarrow> nat \<Rightarrow> 'b list \<Rightarrow> nat list \<Rightarrow> ('b, 'e) tts_run"
where
  "ttsLoop service maxRetries attempts audioBuffers waited =
     (if int attempts \<le> maxRetries then
        (case service attempts of
           Completed bs \<Rightarrow>
             \<lparr>attemptsMade = Suc attempts, delays = waited, outcome = Inr (audioBuffers @ bs)\<rparr>
         | Thrown bs e \<Rightarrow>
             if int attempts < maxRetries
             then ttsLoop service maxRetries (Suc attempts) (audioBuffers @ bs)
                    (waited @ [2 ^ attempts * 1000])
             else \<lparr>attemptsMade = Suc attempts, delays = waited,
                   outcome = Inl (ServiceError e)\<rparr>)
      else \<lparr>attemptsMade = attempts, delays = waited, outcome = Inl RetriesExhausted\<rparr>)"
  by pat_completeness auto
termination
  by (relation "measure (\<lambda>(service, maxRetries, attempts, audioBuffers, waited).
        nat (maxRetries + 1 - int attempts))") auto

declare ttsLoop.simps [simp del]

definition generateTextToSpeech ::
  "bool \<Rightarrow> (nat \<Rightarrow> ('b, 'e) attempt) \<Rightarrow> int \<Rightarrow> ('b, 'e) tts_run" where
  "generateTextToSpeech apiKeySet service maxRetries =
     (if \<not> apiKeySet then \<lparr>attemptsMade = 0, delays = [], outcome = Inl ApiKeyNotSet\<rparr>
      else ttsLoop service maxRetries 0 [] [])"

section \<open>The capture pipeline: \<open>startRecordingVideo\<close> and its recorder callbacks\<close>

record VideoResolution =
  res_value :: string
  width :: nat
  height :: nat

record VideoCodec =
  codec_value :: string
  mimeType :: string
  extension :: string
  codecsString :: string

record VideoBitrate =
  bitrate_value :: string
  numericValue :: nat

text \<open>The tables of \<open>constants.ts\<close>, without the display names.\<close>

definition VIDEO_RESOLUTIONS :: "VideoResolution list" where
  "VIDEO_RESOLUTIONS =
     [\<lparr>res_value = ''1080p'', width = 1920, height = 1080\<rparr>,
      \<lparr>res_value = ''720p'', width = 1280, height = 720\<rparr>,
      \<lparr>res_value = ''480p'', width = 854, height = 480\<rparr>]"

definition VIDEO_CODECS :: "VideoCodec list" where
  "VIDEO_CODECS =
     [\<lparr>codec_value = ''webm'', mimeType = ''video/webm'', extension = ''webm'',
       codecsString = ''vp8,opus''\<rparr>,
      \<lparr>codec_value = ''mp4_h264'', mimeType = ''video/mp4'', extension = ''mp4'',
       codecsString = ''avc1.42001E,mp4a.40.2''\<rparr>]"

definition VIDEO_BITRATES :: "VideoBitrate list" where
  "VIDEO_BITRATES =
     [\<lparr>bitrate_value = ''500k'', numericValue = 500000\<rparr>,
      \<lparr>bitrate_value = ''1000k'', numericValue = 1000000\<rparr>,
      \<lparr>bitrate_value = ''2000k'', numericValue = 2000000\<rparr>,
      \<lparr>bitrate_value = ''5000k'', numericValue = 5000000\<rparr>,
      \<lparr>bitrate_value = ''10000k'', numericValue = 10000000\<rparr>]"

text \<open>A \<open>Blob\<close>: its bytes and its type. \<open>new Blob(parts, {type})\<close> holds the bytes of the
  parts one after the other; the types of the codec table are lower-case ASCII, which the
  constructor keeps as they are.\<close>

record Blob =
  blob_bytes :: "8 word list"
  blob_type :: string

definition blob_size :: "Blob \<Rightarrow> nat" where
  "blob_size b = length (blob_bytes b)"

definition newBlob :: "Blob list \<Rightarrow> string \<Rightarrow> Blob" where
  "newBlob parts ty = \<lparr>blob_bytes = concat (map blob_bytes parts), blob_type = ty\<rparr>"

datatype capture_error =
  NotReady | NothingPlaying | InvalidSelection | NoVideoTrack | NoAudioTrack
  | RecorderRejected | NoRecordedData

text \<open>What \<open>startRecordingVideo\<close> reads from its surroundings.\<close>

record CaptureEnv =
  canvasAndDestinationReady :: bool
  isPlayingVideo :: bool
  isAudiobookPlaying :: bool
  hasVideoTrack :: bool
  hasAudioTrack :: bool
  recorderAccepts :: "string \<Rightarrow> bool"

record RecordingSession =
  selectedRes :: VideoResolution
  selectedCodec :: VideoCodec
  selectedBitrateObj :: VideoBitrate
  recorderMimeType :: string
  recordedChunks :: "Blob list"

definition startRecordingVideo ::
  "CaptureEnv \<Rightarrow> string \<Rightarrow> string \<Rightarrow> string \<Rightarrow> capture_error + RecordingSession" where
  "startRecordingVideo env selectedVideoResolution selectedVideoCodec selectedVideoBitrate =
     (if \<not> canvasAndDestinationReady env then Inl NotReady
      else if \<not> isPlayingVideo env \<and> \<not> isAudiobookPlaying env then Inl NothingPlaying
      else
        (case (find (\<lambda>res. res_value res = selectedVideoResolution) VIDEO_RESOLUTIONS,
               find (\<lambda>codec. codec_value codec = selectedVideoCodec) VIDEO_CODECS,
               find (\<lambda>bitrate. bitrate_value bitrate = selectedVideoBitrate) VIDEO_BITRATES)
         of (Some res, Some codec, Some bitrate) \<Rightarrow>
              if \<not> hasVideoTrack env then Inl NoVideoTrack
              else if \<not> hasAudioTrack env then Inl NoAudioTrack
              else
                (let mime = mimeType codec @ ''; codecs='' @ codecsString codec
                 in if \<not> recorderAccepts env mime then Inl RecorderRejected
                    else Inr \<lparr>selectedRes = res, selectedCodec = codec,
                              selectedBitrateObj = bitrate, recorderMimeType = mime,
                              recordedChunks = []\<rparr>)
          | _ \<Rightarrow> Inl InvalidSelection))"

text \<open>\<open>ondataavailable\<close>\<close>

definition ondataavailable :: "RecordingSession \<Rightarrow> Blob \<Rightarrow> RecordingSession" where
  "ondataavailable session data =
     (if blob_size data > 0
      then session\<lparr>recordedChunks := recordedChunks session @ [data]\<rparr>
      else session)"

text \<open>\<open>onstop\<close>, up to the blob it hands to the file picker or the download link: the
  error it reports or the blob, and the session afterwards.\<close>

definition onstop :: "RecordingSession \<Rightarrow> (capture_error + Blob) \<times> RecordingSession" where
  "onstop session =
     (if length (recordedChunks session) = 0 then (Inl NoRecordedData, session)
      else (Inr (newBlob (recordedChunks session) (mimeType (selectedCodec session))),
            session\<lparr>recordedChunks := []\<rparr>))"

section \<open>The scene crossfade inside \<open>drawMainVisualizer\<close>\<close>

record FadeState =
  active :: bool
  fade_startTime :: real
  fade_duration :: real
  oldImageUrl :: "string option"
  newImageUrl :: "string option"

definition FADE_DURATION_SECONDS :: real where
  "FADE_DURATION_SECONDS = 1.0"

text \<open>The refs and the state the crossfade works on; an image element is modelled by its
  \<open>src\<close>. \<open>currentAudiobookSceneIndex\<close> is React state: it holds the last value
  given to \<open>setCurrentAudiobookSceneIndex\<close>, which a running frame loop does not see.\<close>

record SceneState =
  audiobookFadeState :: "FadeState option"
  lastSceneChangeTimestamp :: real
  currentAudiobookSceneIndex :: nat
  previousLoadedAudiobookImage :: "string option option"
  currentLoadedAudiobookImage :: "string option option"

text \<open>What one frame reads: whether the video frame is drawn instead, the playing flag,
  the scene image URLs, the scene index captured by the closure that runs the frame, the
  clock, the durations of the narration buffers and whether the current image has finished
  loading.\<close>

record FrameInput =
  videoFrameDrawn :: bool
  audiobookPlaying :: bool
  audiobookSceneImageUrls :: "string list"
  closureSceneIndex :: nat
  currentTime :: real
  pcmBufferDurations :: "real list"
  currentImageComplete :: bool

text \<open>\<open>urls[i]\<close>: \<open>undefined\<close> out of range.\<close>

definition urlAt :: "string list \<Rightarrow> nat \<Rightarrow> string option" where
  "urlAt urls i = (if i < length urls then Some (urls ! i) else None)"

text \<open>\<open>audiobookFadeStateRef.current?.active\<close>\<close>

definition fadeActive :: "SceneState \<Rightarrow> bool" where
  "fadeActive s = (case audiobookFadeState s of None \<Rightarrow> False | Some f \<Rightarrow> active f)"

text \<open>The scene-change trigger.\<close>

definition sceneCycle :: "FrameInput \<Rightarrow> SceneState \<Rightarrow> SceneState" where
  "sceneCycle inp s =
     (let urls = audiobookSceneImageUrls inp;
          totalAudiobookDuration = foldl (\<lambda>acc d. acc + d) 0 (pcmBufferDurations inp)
      in if totalAudiobookDuration > 0 \<and> length urls > 0 then
           (let dynamicSceneDuration = totalAudiobookDuration / real (length urls);
                elapsedSinceLastChange = currentTime inp - lastSceneChangeTimestamp s
            in if \<not> fadeActive s \<and> length urls > 1 then
                 (if elapsedSinceLastChange \<ge> dynamicSceneDuration then
                    (let oldIndex = closureSceneIndex inp;
                         newIndex = (oldIndex + 1) mod length urls
                     in s\<lparr>previousLoadedAudiobookImage := currentLoadedAudiobookImage s,
                          currentLoadedAudiobookImage := Some (urlAt urls newIndex),
                          audiobookFadeState :=
                            Some \<lparr>active = True, fade_startTime = currentTime inp,
                                  fade_duration = FADE_DURATION_SECONDS,
                                  oldImageUrl = urlAt urls oldIndex,
                                  newImageUrl = urlAt urls newIndex\<rparr>,
                          currentAudiobookSceneIndex := newIndex,
                          lastSceneChangeTimestamp := currentTime inp\<rparr>)
                  else s)
               else s)
         else s)"

text \<open>The drawing branch, as far as it changes the refs.\<close>

definition sceneDraw :: "FrameInput \<Rightarrow> SceneState \<Rightarrow> SceneState" where
  "sceneDraw inp s =
     (if fadeActive s then
        (case audiobookFadeState s of
           None \<Rightarrow> s
         | Some fadeState \<Rightarrow>
             (let progress =
                    min 1 ((currentTime inp - fade_startTime fadeState) / fade_duration fadeState)
              in if progress \<ge> 1
                 then s\<lparr>audiobookFadeState := None, previousLoadedAudiobookImage := None\<rparr>
                 else s))
      else if currentLoadedAudiobookImage s \<noteq> None \<and> currentImageComplete inp then s
      else
        (case urlAt (audiobookSceneImageUrls inp) (closureSceneIndex inp) of
           Some url \<Rightarrow>
             if url \<noteq> [] \<and> currentLoadedAudiobookImage s = None
             then s\<lparr>currentLoadedAudiobookImage := Some (Some url)\<rparr>
             else s
         | None \<Rightarrow> s))"

text \<open>The part of one \<open>animate\<close> frame that concerns the scene images.\<close>

definition animate :: "FrameInput \<Rightarrow> SceneState \<Rightarrow> SceneState" where
  "animate inp s =
     (if videoFrameDrawn inp then s
      else if audiobookPlaying inp \<and> length (audiobookSceneImageUrls inp) > 0
      then sceneDraw inp (sceneCycle inp s)
      else s)"

definition runFrames :: "SceneState \<Rightarrow> FrameInput list \<Rightarrow> SceneState" where
  "runFrames s frames = foldl (\<lambda>st inp. animate inp st) s frames"

section \<open>Sample inputs\<close>

text \<open>A mono buffer of one second at 24 kHz, a scheduler with two such buffers playing,
  a capture environment with a narration playing, blobs of zero bytes, the session of a
  WebM recording at 720p and 2 Mbps, the scene state before the first frame and a frame
  of a narration of ten seconds.\<close>

definition oneSecond :: AudioBuffer where
  "oneSecond = \<lparr>numberOfChannels = 1, sampleRate = 24000, frameCount = 24000\<rparr>"

definition twoPlaying :: Scheduler where
  "twoPlaying = playAll initialScheduler [(0, oneSecond), (0, oneSecond)]"

definition playingEnv :: CaptureEnv where
  "playingEnv = \<lparr>canvasAndDestinationReady = True, isPlayingVideo = False,
     isAudiobookPlaying = True, hasVideoTrack = True, hasAudioTrack = True,
     recorderAccepts = (\<lambda>mime. True)\<rparr>"

definition zeroBlob :: "nat \<Rightarrow> Blob" where
  "zeroBlob n = \<lparr>blob_bytes = replicate n 0, blob_type = ''video/webm;codecs=vp8,opus''\<rparr>"

definition webmSession :: RecordingSession where
  "webmSession =
     \<lparr>selectedRes = \<lparr>res_value = ''720p'', width = 1280, height = 720\<rparr>,
      selectedCodec = \<lparr>codec_value = ''webm'', mimeType = ''video/webm'',
        extension = ''webm'', codecsString = ''vp8,opus''\<rparr>,
      selectedBitrateObj = \<lparr>bitrate_value = ''2000k'', numericValue = 2000000\<rparr>,
      recorderMimeType = ''video/webm; codecs=vp8,opus'',
      recordedChunks = []\<rparr>"

definition sceneStart :: SceneState where
  "sceneStart = \<lparr>audiobookFadeState = None, lastSceneChangeTimestamp = 0,
     currentAudiobookSceneIndex = 0, previousLoadedAudiobookImage = None,
     currentLoadedAudiobookImage = None\<rparr>"

definition frameAt :: "string list \<Rightarrow> real \<Rightarrow> FrameInput" where
  "frameAt urls t = \<lparr>videoFrameDrawn = False, audiobookPlaying = True,
     audiobookSceneImageUrls = urls, closureSceneIndex = 0, currentTime = t,
     pcmBufferDurations = [4, 6],
     currentImageComplete = True\<rparr>"

section \<open>Properties of the caption timing estimator\<close>

lemma estimatedWordDuration_pos: "0 < estimatedWordDuration b w"
  by (simp add: estimatedWordDuration_def less_max_iff_disj)

lemma foldl_durations:
  "foldl (\<lambda>acc w. acc + estimatedWordDuration b w) a ws
     = a + sum_list (map (estimatedWordDuration b) ws)"
  by (induction ws arbitrary: a) simp_all

lemma lineDurationOf_sum:
  "lineDurationOf b ws = sum_list (map (estimatedWordDuration b) ws)"
  by (simp add: lineDurationOf_def foldl_durations)

lemma lineDurationOf_nonneg: "0 \<le> lineDurationOf b ws"
proof -
  have "0 \<le> estimatedWordDuration b w" for w
    using estimatedWordDuration_pos [of b w] by simp
  then show ?thesis
    by (auto simp: lineDurationOf_sum intro!: sum_list_nonneg)
qed

lemma wordSegments_spans:
  "sum_list (map (\<lambda>w. endTime w - startTime w) (wordSegments b off ws))
     = sum_list (map (estimatedWordDuration b) ws)"
  by (induction ws arbitrary: off) (simp_all add: Let_def)

lemma lineSegments_length: "length (lineSegments b off ls) = length ls"
  by (induction ls arbitrary: off) (simp_all add: Let_def)

lemma lineSegments_first:
  "ls \<noteq> [] \<Longrightarrow> relativeStartTime (hd (lineSegments b off ls)) = off"
  by (cases ls) (simp_all add: Let_def)

lemma lineSegments_adjacent:
  "Suc i < length ls \<Longrightarrow>
     relativeEndTime (lineSegments b off ls ! i)
       = relativeStartTime (lineSegments b off ls ! Suc i)"
proof (induction ls arbitrary: off i)
  case Nil
  then show ?case by simp
next
  case (Cons l ls)
  show ?case
  proof (cases i)
    case 0
    with Cons.prems have ne: "ls \<noteq> []" by auto
    let ?off' = "off + lineDurationOf b (wordsInLine l)"
    have "lineSegments b ?off' ls \<noteq> []"
      using ne lineSegments_length [of b ?off' ls] by auto
    then have "lineSegments b ?off' ls ! 0 = hd (lineSegments b ?off' ls)"
      by (simp add: hd_conv_nth)
    with 0 ne show ?thesis
      by (simp add: Let_def lineSegments_first)
  next
    case (Suc j)
    with Cons.prems have "Suc j < length ls" by simp
    from Cons.IH [OF this] Suc show ?thesis
      by (simp add: Let_def)
  qed
qed

lemma lineSegments_span:
  "l \<in> set (lineSegments b off ls) \<Longrightarrow>
     relativeEndTime l = relativeStartTime l + duration l \<and> 0 \<le> duration l"
  by (induction ls arbitrary: off) (auto simp: Let_def lineDurationOf_nonneg)

lemma lineSegments_words:
  "l \<in> set (lineSegments b off ls) \<Longrightarrow>
     duration l = sum_list (map (\<lambda>w. endTime w - startTime w) (words l))"
  by (induction ls arbitrary: off)
     (auto simp: Let_def lineDurationOf_sum wordSegments_spans)

lemma lineSegments_total:
  "ls \<noteq> [] \<Longrightarrow>
     relativeEndTime (last (lineSegments b off ls))
       = off + sum_list (map duration (lineSegments b off ls))"
proof (induction ls arbitrary: off)
  case Nil
  then show ?case by simp
next
  case (Cons l ls)
  show ?case
  proof (cases "ls = []")
    case True
    then show ?thesis by (simp add: Let_def)
  next
    case False
    let ?off' = "off + lineDurationOf b (wordsInLine l)"
    have ne: "lineSegments b ?off' ls \<noteq> []"
      using False lineSegments_length [of b ?off' ls] by auto
    from Cons.IH [OF False, of ?off'] ne show ?thesis
      by (simp add: Let_def)
  qed
qed

lemma segment_cases:
  "segmentTextForKaraoke t D = [] \<or>
   (nonBlankLines t \<noteq> [] \<and>
    segmentTextForKaraoke t D
      = lineSegments (baseAverageWordDuration t D) 0 (nonBlankLines t))"
  by (simp add: segmentTextForKaraoke_def Let_def)

lemma splitTokens_concat: "concat (splitTokens prev piece s) = piece @ s"
proof (induction prev piece s rule: splitTokens.induct)
  case (1 prev piece)
  then show ?case by simp
next
  case (2 prev piece c cs)
  show ?case
  proof (cases "matchSeparator prev (c # cs)")
    case None
    with "2.IH"(1) show ?thesis by simp
  next
    case (Some n)
    from "2.IH"(2) [OF Some]
    have "concat (splitTokens (Some (last (take n (c # cs)))) [] (drop n (c # cs)))
            = drop n (c # cs)"
      by simp
    with Some show ?thesis
      by (simp del: take_Suc_Cons drop_Suc_Cons add: append_take_drop_id)
  qed
qed

lemma concat_filter_nonempty: "concat (filter (\<lambda>w. w \<noteq> []) xs) = concat xs"
  by (induction xs) simp_all

lemma wordsInLine_concat: "concat (wordsInLine line) = line"
  by (simp add: wordsInLine_def concat_filter_nonempty splitTokens_concat)

lemma wordsInLine_nonempty: "line \<noteq> [] \<Longrightarrow> wordsInLine line \<noteq> []"
  using wordsInLine_concat [of line] by auto

lemma nonBlankLines_nonempty: "line \<in> set (nonBlankLines t) \<Longrightarrow> line \<noteq> []"
  by (auto simp: nonBlankLines_def trim_def)

lemma lineDurationOf_pos: "ws \<noteq> [] \<Longrightarrow> 0 < lineDurationOf b ws"
proof (cases ws)
  case Nil
  assume "ws \<noteq> []"
  with Nil show ?thesis by simp
next
  case (Cons w rest)
  have "0 \<le> lineDurationOf b rest" by (rule lineDurationOf_nonneg)
  then have "0 \<le> sum_list (map (estimatedWordDuration b) rest)"
    by (simp add: lineDurationOf_sum)
  with estimatedWordDuration_pos [of b w] show ?thesis
    by (simp add: Cons lineDurationOf_sum)
qed

lemma lineSegments_durations:
  "map duration (lineSegments b off ls) = map (\<lambda>l. lineDurationOf b (wordsInLine l)) ls"
  by (induction ls arbitrary: off) (simp_all add: Let_def)

lemma lineSegments_nth:
  "i < length ls \<Longrightarrow>
     lineSegments b off ls ! i =
       \<lparr>lineText = trim (ls ! i),
        words = wordSegments b 0 (wordsInLine (ls ! i)),
        duration = lineDurationOf b (wordsInLine (ls ! i)),
        relativeStartTime =
          off + sum_list (map (\<lambda>l. lineDurationOf b (wordsInLine l)) (take i ls)),
        relativeEndTime =
          off + sum_list (map (\<lambda>l. lineDurationOf b (wordsInLine l)) (take i ls))
            + lineDurationOf b (wordsInLine (ls ! i))\<rparr>"
proof (induction ls arbitrary: off i)
  case Nil
  then show ?case by simp
next
  case (Cons l ls)
  show ?case
  proof (cases i)
    case 0
    then show ?thesis by (simp add: Let_def)
  next
    case (Suc j)
    with Cons.prems have "j < length ls" by simp
    from Cons.IH [OF this, of "off + lineDurationOf b (wordsInLine l)"] Suc
    show ?thesis by (simp add: Let_def add.assoc)
  qed
qed

lemma wordSegments_words:
  "map word (wordSegments b off ws) = map trim ws"
  by (induction ws arbitrary: off) (simp_all add: Let_def)

lemma segment_length:
  "length (segmentTextForKaraoke t D) = length (nonBlankLines t)"
  by (simp add: segmentTextForKaraoke_def Let_def lineSegments_length)

lemma wordSegments_estimates:
  "map (\<lambda>w. endTime w - startTime w) (wordSegments b off ws)
     = map (estimatedWordDuration b) ws"
  by (induction ws arbitrary: off) (simp_all add: Let_def)

text \<open>
  Claim C3. For every text and every total duration the estimator returns one segment
  for each non-blank line, and the segments partition the estimated timeline: the first
  starts at 0, the end of segment \<open>i\<close> is the start of segment \<open>i + 1\<close>, the duration of
  segment \<open>i\<close> is the sum of the estimated durations of the tokens of line \<open>i\<close>, its start
  is the sum of the durations of the segments before it, its end is its start plus its
  duration, and it is not empty (its start is before its end).
\<close>

theorem segments_contiguous:
  "length (segmentTextForKaraoke t D) = length (nonBlankLines t) \<and>
   (segmentTextForKaraoke t D \<noteq> [] \<longrightarrow>
      relativeStartTime (hd (segmentTextForKaraoke t D)) = 0) \<and>
   (\<forall>i. Suc i < length (segmentTextForKaraoke t D) \<longrightarrow>
      relativeEndTime (segmentTextForKaraoke t D ! i)
        = relativeStartTime (segmentTextForKaraoke t D ! Suc i)) \<and>
   (\<forall>i < length (segmentTextForKaraoke t D).
      duration (segmentTextForKaraoke t D ! i)
        = sum_list (map (estimatedWordDuration (baseAverageWordDuration t D))
            (wordsInLine (nonBlankLines t ! i))) \<and>
      relativeStartTime (segmentTextForKaraoke t D ! i)
        = sum_list (map duration (take i (segmentTextForKaraoke t D))) \<and>
      relativeEndTime (segmentTextForKaraoke t D ! i)
        = relativeStartTime (segmentTextForKaraoke t D ! i)
          + duration (segmentTextForKaraoke t D ! i) \<and>
      relativeStartTime (segmentTextForKaraoke t D ! i)
        < relativeEndTime (segmentTextForKaraoke t D ! i))"
proof (cases "segmentTextForKaraoke t D = []")
  case True
  have "length (segmentTextForKaraoke t D) = length (nonBlankLines t)"
    by (simp add: segmentTextForKaraoke_def Let_def lineSegments_length)
  with True show ?thesis by simp
next
  case False
  let ?b = "baseAverageWordDuration t D"
  let ?ls = "nonBlankLines t"
  from False segment_cases [of t D]
  have ne: "?ls \<noteq> []"
    and eq: "segmentTextForKaraoke t D = lineSegments ?b 0 ?ls"
    by auto
  have len: "length (segmentTextForKaraoke t D) = length ?ls"
    unfolding eq by (rule lineSegments_length)
  have first: "relativeStartTime (hd (segmentTextForKaraoke t D)) = 0"
    unfolding eq using ne by (rule lineSegments_first)
  have adj: "\<forall>i. Suc i < length (segmentTextForKaraoke t D) \<longrightarrow>
      relativeEndTime (segmentTextForKaraoke t D ! i)
        = relativeStartTime (segmentTextForKaraoke t D ! Suc i)"
    unfolding eq by (simp add: lineSegments_length lineSegments_adjacent)
  have each: "duration (segmentTextForKaraoke t D ! i)
        = sum_list (map (estimatedWordDuration ?b) (wordsInLine (?ls ! i))) \<and>
      relativeStartTime (segmentTextForKaraoke t D ! i)
        = sum_list (map duration (take i (segmentTextForKaraoke t D))) \<and>
      relativeEndTime (segmentTextForKaraoke t D ! i)
        = relativeStartTime (segmentTextForKaraoke t D ! i)
          + duration (segmentTextForKaraoke t D ! i) \<and>
      relativeStartTime (segmentTextForKaraoke t D ! i)
        < relativeEndTime (segmentTextForKaraoke t D ! i)"
    if i: "i < length (segmentTextForKaraoke t D)" for i
  proof -
    from i len have il: "i < length ?ls" by simp
    then have "?ls ! i \<in> set ?ls" by simp
    then have "wordsInLine (?ls ! i) \<noteq> []"
      using nonBlankLines_nonempty wordsInLine_nonempty by blast
    then have pos: "0 < lineDurationOf ?b (wordsInLine (?ls ! i))"
      by (rule lineDurationOf_pos)
    have prefix: "map duration (take i (lineSegments ?b 0 ?ls))
        = map (\<lambda>l. lineDurationOf ?b (wordsInLine l)) (take i ?ls)"
      by (simp add: take_map [symmetric] lineSegments_durations)
    from lineSegments_nth [OF il, of ?b 0] pos prefix show ?thesis
      unfolding eq by (simp add: lineDurationOf_sum)
  qed
  from len first adj each show ?thesis by blast
qed

lemmas estimator_eval =
  segmentTextForKaraoke_def nonBlankLines_def trim_def isSpace_def js_def
  baseAverageWordDuration_def totalWords_def Let_def wordsInLine_def matchSeparator_def
  isPunctChar_def isWordChar_def wordBoundary_def isWordOpt_def headOpt_def
  lineDurationOf_def estimatedWordDuration_def isPunctuation_def

lemma two_line_setup:
  "nonBlankLines (js ''ab cd'' @ 10 # js ''ef'') = [js ''ab cd'', js ''ef'']"
  "baseAverageWordDuration (js ''ab cd'' @ 10 # js ''ef'') 6 = 2"
  by (simp_all add: js_def isSpace_def nonBlankLines_def trim_def totalWords_def
      baseAverageWordDuration_def)

lemma two_line_tokens:
  "wordsInLine (js ''ab cd'') = [js ''ab'', js '' '', js ''cd'']"
  "wordsInLine (js ''ef'') = [js ''ef'']"
  by (simp_all add: js_def wordsInLine_def matchSeparator_def isSpace_def isPunctChar_def
      isWordChar_def wordBoundary_def isWordOpt_def headOpt_def)

lemma two_line_durations:
  "estimatedWordDuration 2 (js ''ab'') = 1.18"
  "estimatedWordDuration 2 (js '' '') = 0.08"
  "estimatedWordDuration 2 (js ''cd'') = 1.18"
  "estimatedWordDuration 2 (js ''ef'') = 1.18"
  by (simp_all add: js_def estimatedWordDuration_def isPunctuation_def trim_def isSpace_def
      isPunctChar_def)

theorem segments_contiguous_witness:
  "Suc 0 < length (segmentTextForKaraoke (js ''ab cd'' @ 10 # js ''ef'') 6) \<and>
   segmentTextForKaraoke (js ''ab cd'' @ 10 # js ''ef'') 6 \<noteq> [] \<and>
   relativeStartTime (hd (segmentTextForKaraoke (js ''ab cd'' @ 10 # js ''ef'') 6)) = 0 \<and>
   duration (segmentTextForKaraoke (js ''ab cd'' @ 10 # js ''ef'') 6 ! 0) = 2.44 \<and>
   relativeEndTime (segmentTextForKaraoke (js ''ab cd'' @ 10 # js ''ef'') 6 ! 0) = 2.44 \<and>
   relativeStartTime (segmentTextForKaraoke (js ''ab cd'' @ 10 # js ''ef'') 6 ! Suc 0) = 2.44 \<and>
   duration (segmentTextForKaraoke (js ''ab cd'' @ 10 # js ''ef'') 6 ! Suc 0) = 1.18 \<and>
   relativeEndTime (segmentTextForKaraoke (js ''ab cd'' @ 10 # js ''ef'') 6 ! Suc 0) = 3.62"
proof -
  let ?segs = "segmentTextForKaraoke (js ''ab cd'' @ 10 # js ''ef'') 6"
  note c3 = segments_contiguous [of "js ''ab cd'' @ 10 # js ''ef''" 6]
  from c3 have len: "length ?segs = 2"
    by (simp add: two_line_setup)
  then have two: "Suc 0 < length ?segs" and ne: "?segs \<noteq> []" by auto
  from len have i0: "0 < length ?segs" and i1: "Suc 0 < length ?segs" by auto
  from c3 ne have first: "relativeStartTime (hd ?segs) = 0" by blast
  from ne have start0: "relativeStartTime (?segs ! 0) = 0"
    using first by (simp add: hd_conv_nth)
  from c3 i0 have d0: "duration (?segs ! 0) = 2.44"
    by (simp add: two_line_setup two_line_tokens two_line_durations)
  from c3 i0 have "relativeEndTime (?segs ! 0)
      = relativeStartTime (?segs ! 0) + duration (?segs ! 0)"
    by blast
  with start0 d0 have e0: "relativeEndTime (?segs ! 0) = 2.44" by simp
  from c3 two have "relativeEndTime (?segs ! 0) = relativeStartTime (?segs ! Suc 0)"
    by blast
  with e0 have s1: "relativeStartTime (?segs ! Suc 0) = 2.44" by simp
  from c3 i1 have d1: "duration (?segs ! Suc 0) = 1.18"
    by (simp add: two_line_setup two_line_tokens two_line_durations)
  from c3 i1 have "relativeEndTime (?segs ! Suc 0)
      = relativeStartTime (?segs ! Suc 0) + duration (?segs ! Suc 0)"
    by blast
  with s1 d1 have e1: "relativeEndTime (?segs ! Suc 0) = 3.62" by simp
  from two ne first d0 e0 s1 d1 e1 show ?thesis by blast
qed

lemma splitNewline_pieces:
  "l \<in> set (splitNewline piece t) \<Longrightarrow> set l \<subseteq> set piece \<union> set t"
proof (induction t arbitrary: piece)
  case Nil
  then show ?case by simp
next
  case (Cons c cs)
  show ?case
  proof (cases "c = 10")
    case True
    with Cons.prems have "l = piece \<or> l \<in> set (splitNewline [] cs)" by simp
    then show ?thesis
    proof
      assume "l = piece"
      then show ?thesis by auto
    next
      assume "l \<in> set (splitNewline [] cs)"
      from Cons.IH [OF this] show ?thesis by auto
    qed
  next
    case False
    with Cons.prems have "l \<in> set (splitNewline (piece @ [c]) cs)" by simp
    from Cons.IH [OF this] show ?thesis by auto
  qed
qed

lemma trim_blank: "\<forall>c \<in> set l. isSpace c \<Longrightarrow> trim l = []"
proof -
  assume "\<forall>c \<in> set l. isSpace c"
  then have blank: "dropWhile isSpace l = []"
    by (induction l) simp_all
  show ?thesis unfolding trim_def blank by simp
qed

text \<open>
  Claim C10. A text made of white space only (the empty text included) has no non-blank
  line: the estimator returns the empty list for every total duration, and the lookup
  then finds neither a line nor a word: the overlay makes no lookup for an empty list,
  and the loops themselves leave both indices at \<open>-1\<close>.
\<close>

theorem blank_text_no_segments:
  assumes "list_all isSpace t"
  shows "segmentTextForKaraoke t D = [] \<and>
         currentLineAndWord (segmentTextForKaraoke t D) time = (-1, -1) \<and>
         captionLookup playing enabled (segmentTextForKaraoke t D) time = None"
proof -
  have "trim l = []" if "l \<in> set (splitNewline [] t)" for l
  proof -
    from that have "set l \<subseteq> set t"
      using splitNewline_pieces [of l "[]" t] by simp
    with assms have "\<forall>c \<in> set l. isSpace c"
      by (auto simp: list_all_iff)
    then show ?thesis by (rule trim_blank)
  qed
  then have "nonBlankLines t = []"
    by (simp add: nonBlankLines_def filter_empty_conv)
  then have "segmentTextForKaraoke t D = []"
    by (simp add: segmentTextForKaraoke_def)
  then show ?thesis by (simp add: currentLineAndWord_def captionLookup_def)
qed

theorem blank_text_no_segments_witness:
  "list_all isSpace (js ''  '' @ 10 # js '' '') \<and>
   segmentTextForKaraoke (js ''  '' @ 10 # js '' '') 4 = [] \<and>
   currentLineAndWord (segmentTextForKaraoke (js ''  '' @ 10 # js '' '') 4) 0 = (-1, -1) \<and>
   captionLookup True True (segmentTextForKaraoke (js ''  '' @ 10 # js '' '') 4) 0 = None"
proof -
  have h: "list_all isSpace (js ''  '' @ 10 # js '' '')"
    by (simp add: js_def isSpace_def)
  from h blank_text_no_segments [OF h, of 4 0 True True] show ?thesis by blast
qed

text \<open>
  Claim C2, as the code has it. The durations of the returned lines sum to the
  \<open>relativeEndTime\<close> of the last line, and this total is the heuristic estimate: the sum,
  over the non-blank lines, of the estimated durations of the tokens of the line. Line by
  line, the duration is the sum of the estimates of its tokens, and the word segments of
  the line are its tokens, trimmed, each lasting its estimate. The total is not tied to
  the total duration given.
\<close>

theorem durations_sum_to_last_end:
  assumes "segmentTextForKaraoke t D \<noteq> []"
  shows "sum_list (map duration (segmentTextForKaraoke t D))
           = relativeEndTime (last (segmentTextForKaraoke t D)) \<and>
         sum_list (map duration (segmentTextForKaraoke t D))
           = sum_list (map (\<lambda>line. sum_list (map
                 (estimatedWordDuration (baseAverageWordDuration t D)) (wordsInLine line)))
               (nonBlankLines t)) \<and>
         (\<forall>i < length (segmentTextForKaraoke t D).
            duration (segmentTextForKaraoke t D ! i)
              = sum_list (map (estimatedWordDuration (baseAverageWordDuration t D))
                  (wordsInLine (nonBlankLines t ! i))) \<and>
            map word (words (segmentTextForKaraoke t D ! i))
              = map trim (wordsInLine (nonBlankLines t ! i)) \<and>
            map (\<lambda>w. endTime w - startTime w) (words (segmentTextForKaraoke t D ! i))
              = map (estimatedWordDuration (baseAverageWordDuration t D))
                  (wordsInLine (nonBlankLines t ! i))) \<and>
         (\<forall>l \<in> set (segmentTextForKaraoke t D).
            duration l = sum_list (map (\<lambda>w. endTime w - startTime w) (words l)))"
proof -
  let ?b = "baseAverageWordDuration t D"
  let ?ls = "nonBlankLines t"
  from assms segment_cases [of t D]
  have ne: "?ls \<noteq> []"
    and eq: "segmentTextForKaraoke t D = lineSegments ?b 0 ?ls"
    by auto
  have total: "sum_list (map duration (segmentTextForKaraoke t D))
           = relativeEndTime (last (segmentTextForKaraoke t D))"
    unfolding eq using lineSegments_total [OF ne, of ?b 0] by simp
  have estimate: "sum_list (map duration (segmentTextForKaraoke t D))
           = sum_list (map (\<lambda>line. sum_list (map (estimatedWordDuration ?b)
               (wordsInLine line))) ?ls)"
    unfolding eq by (simp add: lineSegments_durations lineDurationOf_sum)
  have each: "\<forall>i < length (segmentTextForKaraoke t D).
            duration (segmentTextForKaraoke t D ! i)
              = sum_list (map (estimatedWordDuration ?b) (wordsInLine (?ls ! i))) \<and>
            map word (words (segmentTextForKaraoke t D ! i))
              = map trim (wordsInLine (?ls ! i)) \<and>
            map (\<lambda>w. endTime w - startTime w) (words (segmentTextForKaraoke t D ! i))
              = map (estimatedWordDuration ?b) (wordsInLine (?ls ! i))"
    unfolding eq
    by (simp add: lineSegments_length lineSegments_nth lineDurationOf_sum
        wordSegments_words wordSegments_estimates)
  have per_line: "\<forall>l \<in> set (segmentTextForKaraoke t D).
            duration l = sum_list (map (\<lambda>w. endTime w - startTime w) (words l))"
    unfolding eq using lineSegments_words by blast
  from total estimate each per_line show ?thesis by blast
qed

lemma mixed_setup:
  "nonBlankLines (js ''one two'' @ 10 # js ''x'') = [js ''one two'', js ''x'']"
  "baseAverageWordDuration (js ''one two'' @ 10 # js ''x'') 3 = 1"
  by (simp_all add: js_def isSpace_def nonBlankLines_def trim_def totalWords_def
      baseAverageWordDuration_def)

lemma mixed_tokens:
  "wordsInLine (js ''one two'') = [js ''one'', js '' '', js ''two'']"
  "wordsInLine (js ''x'') = [js ''x'']"
  by (simp_all add: js_def wordsInLine_def matchSeparator_def isSpace_def isPunctChar_def
      isWordChar_def wordBoundary_def isWordOpt_def headOpt_def)

lemma mixed_durations:
  "estimatedWordDuration 1 (js ''one'') = 0.77"
  "estimatedWordDuration 1 (js '' '') = 0.08"
  "estimatedWordDuration 1 (js ''two'') = 0.77"
  "estimatedWordDuration 1 (js ''x'') = 0.59"
  by (simp_all add: js_def estimatedWordDuration_def isPunctuation_def trim_def isSpace_def
      isPunctChar_def)

theorem durations_sum_to_last_end_witness:
  "segmentTextForKaraoke (js ''one two'' @ 10 # js ''x'') 3 \<noteq> [] \<and>
   0 < length (segmentTextForKaraoke (js ''one two'' @ 10 # js ''x'') 3) \<and>
   sum_list (map duration (segmentTextForKaraoke (js ''one two'' @ 10 # js ''x'') 3)) = 2.21 \<and>
   relativeEndTime (last (segmentTextForKaraoke (js ''one two'' @ 10 # js ''x'') 3)) = 2.21 \<and>
   duration (segmentTextForKaraoke (js ''one two'' @ 10 # js ''x'') 3 ! 0) = 1.62 \<and>
   map (\<lambda>w. endTime w - startTime w)
     (words (segmentTextForKaraoke (js ''one two'' @ 10 # js ''x'') 3 ! 0))
     = [0.77, 0.08, 0.77]"
proof -
  let ?segs = "segmentTextForKaraoke (js ''one two'' @ 10 # js ''x'') 3"
  have len: "length ?segs = 2"
    by (simp add: segment_length mixed_setup)
  then have ne: "?segs \<noteq> []" and i0: "0 < length ?segs" by auto
  note c2 = durations_sum_to_last_end [OF ne]
  from c2 have total: "sum_list (map duration ?segs) = 2.21"
    by (simp add: mixed_setup mixed_tokens mixed_durations)
  with c2 have last: "relativeEndTime (last ?segs) = 2.21" by simp
  from c2 i0 have d0: "duration (?segs ! 0) = 1.62"
    by (simp add: mixed_setup mixed_tokens mixed_durations)
  from c2 i0 have spans: "map (\<lambda>w. endTime w - startTime w) (words (?segs ! 0))
      = [0.77, 0.08, 0.77]"
    by (simp add: mixed_setup mixed_tokens mixed_durations)
  from ne i0 total last d0 spans show ?thesis by blast
qed

text \<open>
  Claim C2 as stated fails: for the text \<open>Hello\<close> and a total duration of 4 the one
  line lasts 2.45.
\<close>

theorem durations_do_not_sum_to_total:
  "sum_list (map duration (segmentTextForKaraoke (js ''Hello'') 4)) = 2.45 \<and>
   relativeEndTime (last (segmentTextForKaraoke (js ''Hello'') 4)) = 2.45 \<and>
   sum_list (map duration (segmentTextForKaraoke (js ''Hello'') 4)) \<noteq> 4 \<and>
   relativeEndTime (last (segmentTextForKaraoke (js ''Hello'') 4)) \<noteq> 4"
  by (simp add: estimator_eval)

lemma scenario_lines:
  "nonBlankLines (js ''Hello world. Bye now.'') = [js ''Hello world. Bye now.'']"
  by (simp add: js_def isSpace_def nonBlankLines_def trim_def)

lemma scenario_base:
  "baseAverageWordDuration (js ''Hello world. Bye now.'') 4 = 1"
  by (simp add: js_def isSpace_def totalWords_def baseAverageWordDuration_def)

lemma scenario_tokens:
  "wordsInLine (js ''Hello world. Bye now.'')
     = [js ''Hello'', js '' '', js ''world.'', js '' '', js ''Bye'', js '' '', js ''now.'']"
  by (simp add: js_def wordsInLine_def matchSeparator_def isSpace_def isPunctChar_def
      isWordChar_def wordBoundary_def isWordOpt_def headOpt_def)

lemma scenario_durations:
  "estimatedWordDuration 1 (js ''Hello'') = 0.95"
  "estimatedWordDuration 1 (js '' '') = 0.08"
  "estimatedWordDuration 1 (js ''world.'') = 1.04"
  "estimatedWordDuration 1 (js ''Bye'') = 0.77"
  "estimatedWordDuration 1 (js ''now.'') = 0.86"
  by (simp_all add: js_def estimatedWordDuration_def isPunctuation_def trim_def isSpace_def
      isPunctChar_def)

lemma scenario_segments:
  "map (\<lambda>l. (duration l, relativeStartTime l, relativeEndTime l,
             map (\<lambda>w. (startTime w, endTime w)) (words l)))
     (segmentTextForKaraoke (js ''Hello world. Bye now.'') 4)
   = [(3.86, 0, 3.86,
       [(0, 0.95), (0.95, 1.03), (1.03, 2.07), (2.07, 2.15), (2.15, 2.92), (2.92, 3),
        (3, 3.86)])]"
  by (simp add: segmentTextForKaraoke_def scenario_lines scenario_base scenario_tokens
      lineDurationOf_def scenario_durations Let_def)

text \<open>
  Claim C5 as stated fails: the text \<open>Hello world. Bye now.\<close> has no line feed, so the
  estimator returns one line, not two, and its duration is not 4.
\<close>

theorem scenario_is_one_line:
  "length (segmentTextForKaraoke (js ''Hello world. Bye now.'') 4) = 1 \<and>
   sum_list (map duration (segmentTextForKaraoke (js ''Hello world. Bye now.'') 4)) \<noteq> 4"
  using scenario_segments by (auto simp: map_eq_Cons_conv)

text \<open>
  Claim C5, as the code has it. For the text \<open>Hello world. Bye now.\<close> and a total
  duration of 4 the estimator returns exactly one line, which starts at 0 and whose
  duration is its \<open>relativeEndTime\<close>; the lookup at time 0 gives line 0 and word 0.
\<close>

theorem scenario_one_line_lookup:
  "length (segmentTextForKaraoke (js ''Hello world. Bye now.'') 4) = 1 \<and>
   relativeStartTime (hd (segmentTextForKaraoke (js ''Hello world. Bye now.'') 4)) = 0 \<and>
   sum_list (map duration (segmentTextForKaraoke (js ''Hello world. Bye now.'') 4))
     = relativeEndTime (last (segmentTextForKaraoke (js ''Hello world. Bye now.'') 4)) \<and>
   currentLineAndWord (segmentTextForKaraoke (js ''Hello world. Bye now.'') 4) 0 = (0, 0) \<and>
   captionLookup True True (segmentTextForKaraoke (js ''Hello world. Bye now.'') 4) 0
     = Some (0, 0)"
  using scenario_segments
  by (auto simp: map_eq_Cons_conv currentLineAndWord_def captionLookup_def)

lemma failing_tokens:
  "wordsInLine (js ''Hello world.'') = [js ''Hello'', js '' '', js ''world.'']"
  by (simp add: js_def wordsInLine_def matchSeparator_def isSpace_def isPunctChar_def
      isWordChar_def wordBoundary_def isWordOpt_def headOpt_def)

lemma failing_setup:
  "nonBlankLines (js ''Hello world.'') = [js ''Hello world.'']"
  "baseAverageWordDuration (js ''Hello world.'') 2 = 1"
  by (simp_all add: js_def isSpace_def nonBlankLines_def trim_def totalWords_def
      baseAverageWordDuration_def)

lemma failing_words:
  "trim (js ''Hello'') = js ''Hello''" "trim (js '' '') = []"
  "trim (js ''world.'') = js ''world.''"
  by (simp_all add: js_def trim_def isSpace_def)

text \<open>
  Claim C4 at the text \<open>Hello world.\<close> with total duration 2: the line is split into the
  three tokens \<open>Hello\<close>, a blank and \<open>world.\<close>; the full stop stays inside the word
  token, which is timed by the word formula with length 6, and no token gets the
  punctuation pause of 0.25.
\<close>

theorem trailing_punctuation_not_separated:
  "wordsInLine (js ''Hello world.'') = [js ''Hello'', js '' '', js ''world.''] \<and>
   map (\<lambda>w. (word w, endTime w - startTime w))
     (words (hd (segmentTextForKaraoke (js ''Hello world.'') 2)))
     = [(js ''Hello'', 0.95), ([], 0.08), (js ''world.'', 1.04)]"
  by (simp add: segmentTextForKaraoke_def failing_tokens failing_setup failing_words
      scenario_durations Let_def)

section \<open>Properties of the playback scheduler\<close>

lemma playAudioBuffer_fields:
  "nextStartTime (playAudioBuffer s now b) = max (nextStartTime s) now + buffer_duration b"
  "nodes (playAudioBuffer s now b) = nodes s @
     [\<lparr>node_buffer = b, startedAt = max (nextStartTime s) now, stopped = False,
       connected = True\<rparr>]"
  by (simp_all add: playAudioBuffer_def Let_def)

lemma playAll_keeps_nodes:
  "\<exists>new. nodes (playAll s chunks) = nodes s @ new \<and> length new = length chunks"
proof (induction chunks arbitrary: s)
  case Nil
  then show ?case by simp
next
  case (Cons c chunks)
  obtain now b where c: "c = (now, b)" by (cases c)
  from Cons.IH [of "playAudioBuffer s now b"]
  obtain new where
    "nodes (playAll (playAudioBuffer s now b) chunks) = nodes (playAudioBuffer s now b) @ new"
    and "length new = length chunks"
    by blast
  then show ?case
    by (simp add: c playAudioBuffer_fields)
qed

lemma startsFrom_length:
  "length (startsFrom (length (nodes s)) (playAll s chunks)) = length chunks"
  using playAll_keeps_nodes [of s chunks] by (auto simp: startsFrom_def)

lemma startsFrom_Cons:
  "startsFrom (length (nodes s)) (playAll s ((now, b) # rest))
     = max (nextStartTime s) now
       # startsFrom (length (nodes (playAudioBuffer s now b)))
           (playAll (playAudioBuffer s now b) rest)"
proof -
  let ?s1 = "playAudioBuffer s now b"
  obtain new where new: "nodes (playAll ?s1 rest) = nodes ?s1 @ new"
    using playAll_keeps_nodes [of ?s1 rest] by blast
  show ?thesis
    by (simp add: startsFrom_def new) (simp add: playAudioBuffer_fields)
qed

lemma starts_adjacent:
  "Suc i < length chunks \<Longrightarrow>
     startsFrom (length (nodes s)) (playAll s chunks) ! Suc i
       = max (startsFrom (length (nodes s)) (playAll s chunks) ! i
               + buffer_duration (snd (chunks ! i)))
             (fst (chunks ! Suc i))"
proof (induction chunks arbitrary: s i)
  case Nil
  then show ?case by simp
next
  case (Cons c chunks)
  obtain now b where c: "c = (now, b)" by (cases c)
  let ?s1 = "playAudioBuffer s now b"
  show ?case
  proof (cases i)
    case 0
    with Cons.prems obtain c' rest where rest: "chunks = c' # rest"
      by (cases chunks) auto
    obtain now' b' where c': "c' = (now', b')" by (cases c')
    show ?thesis
      unfolding c rest c' 0 startsFrom_Cons
      by (simp add: playAudioBuffer_fields)
  next
    case (Suc j)
    with Cons.prems have "Suc j < length chunks" by simp
    from Cons.IH [OF this, of ?s1] show ?thesis
      unfolding c Suc startsFrom_Cons by simp
  qed
qed

text \<open>
  Claim C1, as the code has it. For chunks submitted in order, each with the clock reading
  at its submission, chunk \<open>i + 1\<close> starts at the later of the end of chunk \<open>i\<close> (its
  start plus its duration) and the clock at the submission of chunk \<open>i + 1\<close>. So it
  starts exactly at the end of chunk \<open>i\<close> whenever it is submitted no later than that,
  and it never starts earlier (no overlap).
\<close>

theorem chunk_starts_at_previous_end_or_clock:
  assumes "Suc i < length chunks"
  shows "length (startsFrom (length (nodes s)) (playAll s chunks)) = length chunks \<and>
         startsFrom (length (nodes s)) (playAll s chunks) ! Suc i
           = max (startsFrom (length (nodes s)) (playAll s chunks) ! i
                   + buffer_duration (snd (chunks ! i)))
                 (fst (chunks ! Suc i)) \<and>
         (fst (chunks ! Suc i)
            \<le> startsFrom (length (nodes s)) (playAll s chunks) ! i
                + buffer_duration (snd (chunks ! i)) \<longrightarrow>
          startsFrom (length (nodes s)) (playAll s chunks) ! Suc i
            = startsFrom (length (nodes s)) (playAll s chunks) ! i
                + buffer_duration (snd (chunks ! i))) \<and>
         startsFrom (length (nodes s)) (playAll s chunks) ! i
             + buffer_duration (snd (chunks ! i))
           \<le> startsFrom (length (nodes s)) (playAll s chunks) ! Suc i"
  using starts_adjacent [OF assms, of s] startsFrom_length [of s chunks] by simp

lemma oneSecond_duration: "buffer_duration oneSecond = 1"
  by (simp add: buffer_duration_def oneSecond_def)

lemma in_time_eval:
  "startsFrom 0 (playAll initialScheduler [(0, oneSecond), (0.5, oneSecond)]) = [0, 1]"
  by (simp add: startsFrom_def playAudioBuffer_def initialScheduler_def Let_def
      oneSecond_duration)

theorem chunk_starts_at_previous_end_or_clock_witness:
  "Suc 0 < length [(0::real, oneSecond), (0.5, oneSecond)] \<and>
   fst ([(0::real, oneSecond), (0.5, oneSecond)] ! Suc 0)
     \<le> startsFrom 0 (playAll initialScheduler [(0, oneSecond), (0.5, oneSecond)]) ! 0
         + buffer_duration (snd ([(0::real, oneSecond), (0.5, oneSecond)] ! 0)) \<and>
   startsFrom 0 (playAll initialScheduler [(0, oneSecond), (0.5, oneSecond)]) ! Suc 0
     = startsFrom 0 (playAll initialScheduler [(0, oneSecond), (0.5, oneSecond)]) ! 0
         + buffer_duration (snd ([(0::real, oneSecond), (0.5, oneSecond)] ! 0))"
proof -
  have len: "Suc 0 < length [(0::real, oneSecond), (0.5, oneSecond)]" by simp
  have k: "length (nodes initialScheduler) = 0" by (simp add: initialScheduler_def)
  have early: "fst ([(0::real, oneSecond), (0.5, oneSecond)] ! Suc 0)
     \<le> startsFrom 0 (playAll initialScheduler [(0, oneSecond), (0.5, oneSecond)]) ! 0
         + buffer_duration (snd ([(0::real, oneSecond), (0.5, oneSecond)] ! 0))"
    unfolding in_time_eval by (simp add: oneSecond_duration)
  from chunk_starts_at_previous_end_or_clock [OF len, of initialScheduler] len early
  show ?thesis unfolding k by blast
qed

text \<open>
  Claim C1 as stated fails: a chunk of one second starts at 0 and the next one is
  submitted when the clock reads 5; it starts at 5, not at 1.
\<close>

theorem late_chunk_leaves_gap:
  "startsFrom 0 (playAll initialScheduler [(0, oneSecond), (5, oneSecond)]) = [0, 5] \<and>
   startsFrom 0 (playAll initialScheduler [(0, oneSecond), (5, oneSecond)]) ! 1
     \<noteq> startsFrom 0 (playAll initialScheduler [(0, oneSecond), (5, oneSecond)]) ! 0
         + buffer_duration oneSecond"
  by (simp add: startsFrom_def playAudioBuffer_def initialScheduler_def Let_def
      oneSecond_duration)

lemma stopSource_length: "length (stopSource ns h) = length ns"
  by (simp add: stopSource_def)

lemma foldl_stopSource_length: "length (foldl stopSource ns hs) = length ns"
  by (induction hs arbitrary: ns) (simp_all add: stopSource_length)

lemma stopSource_halts:
  "h < length ns \<Longrightarrow> stopped (stopSource ns h ! h) \<and> \<not> connected (stopSource ns h ! h)"
  by (simp add: stopSource_def)

lemma stopSource_keeps_halted:
  "stopped (ns ! h) \<and> \<not> connected (ns ! h) \<Longrightarrow>
     stopped (stopSource ns h' ! h) \<and> \<not> connected (stopSource ns h' ! h)"
  by (cases "h = h'") (auto simp: stopSource_def)

lemma foldl_stopSource_keeps_halted:
  "stopped (ns ! h) \<and> \<not> connected (ns ! h) \<Longrightarrow>
     stopped (foldl stopSource ns hs ! h) \<and> \<not> connected (foldl stopSource ns hs ! h)"
proof (induction hs arbitrary: ns)
  case Nil
  then show ?case by simp
next
  case (Cons h' hs)
  from stopSource_keeps_halted [OF Cons.prems, of h']
  have "stopped (stopSource ns h' ! h) \<and> \<not> connected (stopSource ns h' ! h)" .
  from Cons.IH [OF this] show ?case by simp
qed

lemma foldl_stopSource_halts:
  "h \<in> set hs \<Longrightarrow> h < length ns \<Longrightarrow>
     stopped (foldl stopSource ns hs ! h) \<and> \<not> connected (foldl stopSource ns hs ! h)"
proof (induction hs arbitrary: ns)
  case Nil
  then show ?case by simp
next
  case (Cons h' hs)
  show ?case
  proof (cases "h = h'")
    case True
    with Cons.prems have "stopped (stopSource ns h' ! h) \<and> \<not> connected (stopSource ns h' ! h)"
      using stopSource_halts [of h ns] by simp
    from foldl_stopSource_keeps_halted [OF this] show ?thesis by simp
  next
    case False
    with Cons.prems have "h \<in> set hs" by simp
    moreover from Cons.prems have "h < length (stopSource ns h')"
      by (simp add: stopSource_length)
    ultimately show ?thesis using Cons.IH by simp
  qed
qed

lemma handlesValid_initial: "handlesValid initialScheduler"
  by (simp add: handlesValid_def initialScheduler_def)

lemma handlesValid_play: "handlesValid s \<Longrightarrow> handlesValid (playAudioBuffer s now b)"
  by (auto simp: handlesValid_def playAudioBuffer_def Let_def list_all_iff)

lemma handlesValid_ended: "handlesValid s \<Longrightarrow> handlesValid (sourceEnded s h)"
  by (auto simp: handlesValid_def sourceEnded_def list_all_iff)

lemma handlesValid_stop: "handlesValid (stopAllAudio s)"
  by (simp add: handlesValid_def stopAllAudio_def)

text \<open>
  Claim C6. \<open>stopAllAudio\<close> stops and disconnects every source in the active set, leaves
  the set empty and the cursor at 0, whatever the cursor was; the next
  \<open>playAudioBuffer\<close> then starts its chunk at the clock reading (which is never
  negative) and moves the cursor to that reading plus the duration of the chunk.
\<close>

theorem stopAll_resets_timeline:
  assumes "handlesValid s" and "0 \<le> now"
  shows "sourceNodes (stopAllAudio s) = [] \<and>
         nextStartTime (stopAllAudio s) = 0 \<and>
         (\<forall>h \<in> set (sourceNodes s).
            stopped (nodes (stopAllAudio s) ! h) \<and> \<not> connected (nodes (stopAllAudio s) ! h)) \<and>
         startedAt (last (nodes (playAudioBuffer (stopAllAudio s) now buffer))) = now \<and>
         nextStartTime (playAudioBuffer (stopAllAudio s) now buffer)
           = now + buffer_duration buffer"
proof -
  have halted: "\<forall>h \<in> set (sourceNodes s).
            stopped (nodes (stopAllAudio s) ! h) \<and> \<not> connected (nodes (stopAllAudio s) ! h)"
  proof
    fix h assume h: "h \<in> set (sourceNodes s)"
    with assms(1) have "h < length (nodes s)"
      by (simp add: handlesValid_def list_all_iff)
    from foldl_stopSource_halts [OF h this]
    show "stopped (nodes (stopAllAudio s) ! h) \<and> \<not> connected (nodes (stopAllAudio s) ! h)"
      by (simp add: stopAllAudio_def)
  qed
  have cursor: "nextStartTime (stopAllAudio s) = 0"
    by (simp add: stopAllAudio_def)
  have start: "startedAt (last (nodes (playAudioBuffer (stopAllAudio s) now buffer))) = now"
    using assms(2) by (simp add: playAudioBuffer_fields cursor)
  have next_cursor: "nextStartTime (playAudioBuffer (stopAllAudio s) now buffer)
           = now + buffer_duration buffer"
    using assms(2) by (simp add: playAudioBuffer_fields cursor)
  have "sourceNodes (stopAllAudio s) = []"
    by (simp add: stopAllAudio_def)
  with cursor halted start next_cursor show ?thesis by blast
qed

lemma twoPlaying_eval:
  "nextStartTime twoPlaying = 2" "sourceNodes twoPlaying = [0, 1]"
  "length (nodes twoPlaying) = 2"
  by (simp_all add: twoPlaying_def playAudioBuffer_def initialScheduler_def Let_def
      oneSecond_duration)

theorem stopAll_resets_timeline_witness:
  "handlesValid twoPlaying \<and> (0::real) \<le> 0.5 \<and> nextStartTime twoPlaying = 2 \<and>
   Suc 0 \<in> set (sourceNodes twoPlaying) \<and>
   sourceNodes (stopAllAudio twoPlaying) = [] \<and>
   nextStartTime (stopAllAudio twoPlaying) = 0 \<and>
   stopped (nodes (stopAllAudio twoPlaying) ! Suc 0) \<and>
   \<not> connected (nodes (stopAllAudio twoPlaying) ! Suc 0) \<and>
   startedAt (last (nodes (playAudioBuffer (stopAllAudio twoPlaying) 0.5 oneSecond))) = 0.5"
proof -
  have valid: "handlesValid twoPlaying"
    by (simp add: handlesValid_def twoPlaying_eval)
  have clock: "(0::real) \<le> 0.5" by simp
  have mem: "Suc 0 \<in> set (sourceNodes twoPlaying)"
    by (simp add: twoPlaying_eval)
  from stopAll_resets_timeline [OF valid clock, of oneSecond] valid clock mem twoPlaying_eval(1)
  show ?thesis by blast
qed

section \<open>Properties of the retry loop\<close>

text \<open>
  The loop with the default of two retries, for any service: at most three calls, a wait
  of 1000 ms after a failed first call and of 2000 ms after a failed second call, the
  error of the third call when all three fail, and on success the buffers pushed so far.
\<close>

lemma ttsLoop_default_retries:
  "generateTextToSpeech True service 2 =
     (case service 0 of
        Completed b0 \<Rightarrow> \<lparr>attemptsMade = 1, delays = [], outcome = Inr b0\<rparr>
      | Thrown p0 e0 \<Rightarrow>
          (case service 1 of
             Completed b1 \<Rightarrow> \<lparr>attemptsMade = 2, delays = [1000], outcome = Inr (p0 @ b1)\<rparr>
           | Thrown p1 e1 \<Rightarrow>
               (case service 2 of
                  Completed b2 \<Rightarrow>
                    \<lparr>attemptsMade = 3, delays = [1000, 2000], outcome = Inr (p0 @ p1 @ b2)\<rparr>
                | Thrown p2 e2 \<Rightarrow>
                    \<lparr>attemptsMade = 3, delays = [1000, 2000],
                      outcome = Inl (ServiceError e2)\<rparr>))) \<and>
   attemptsMade (generateTextToSpeech True service 2) \<le> 3"
proof -
  have step0: "ttsLoop service 2 0 [] [] =
     (case service 0 of
        Completed b0 \<Rightarrow> \<lparr>attemptsMade = 1, delays = [], outcome = Inr b0\<rparr>
      | Thrown p0 e0 \<Rightarrow> ttsLoop service 2 1 p0 [1000])"
    by (subst ttsLoop.simps) (simp split: attempt.splits)
  have step1: "ttsLoop service 2 1 p0 [1000] =
     (case service 1 of
        Completed b1 \<Rightarrow> \<lparr>attemptsMade = 2, delays = [1000], outcome = Inr (p0 @ b1)\<rparr>
      | Thrown p1 e1 \<Rightarrow> ttsLoop service 2 2 (p0 @ p1) [1000, 2000])" for p0
    by (subst ttsLoop.simps) (simp split: attempt.splits add: numeral_2_eq_2)
  have step2: "ttsLoop service 2 2 q [1000, 2000] =
     (case service 2 of
        Completed b2 \<Rightarrow> \<lparr>attemptsMade = 3, delays = [1000, 2000], outcome = Inr (q @ b2)\<rparr>
      | Thrown p2 e2 \<Rightarrow>
          \<lparr>attemptsMade = 3, delays = [1000, 2000], outcome = Inl (ServiceError e2)\<rparr>)" for q
    by (subst ttsLoop.simps) (simp split: attempt.splits add: numeral_3_eq_3)
  have eq: "generateTextToSpeech True service 2 =
     (case service 0 of
        Completed b0 \<Rightarrow> \<lparr>attemptsMade = 1, delays = [], outcome = Inr b0\<rparr>
      | Thrown p0 e0 \<Rightarrow>
          (case service 1 of
             Completed b1 \<Rightarrow> \<lparr>attemptsMade = 2, delays = [1000], outcome = Inr (p0 @ b1)\<rparr>
           | Thrown p1 e1 \<Rightarrow>
               (case service 2 of
                  Completed b2 \<Rightarrow>
                    \<lparr>attemptsMade = 3, delays = [1000, 2000], outcome = Inr (p0 @ p1 @ b2)\<rparr>
                | Thrown p2 e2 \<Rightarrow>
                    \<lparr>attemptsMade = 3, delays = [1000, 2000],
                      outcome = Inl (ServiceError e2)\<rparr>)))"
    unfolding generateTextToSpeech_def step0 step1 step2
    by (simp split: attempt.splits)
  have "attemptsMade (generateTextToSpeech True service 2) \<le> 3"
    unfolding eq by (simp split: attempt.splits)
  with eq show ?thesis by blast
qed

lemma ttsLoop_bounds:
  "int attempts \<le> maxRetries \<Longrightarrow>
     attempts < attemptsMade (ttsLoop service maxRetries attempts bufs waited) \<and>
     int (attemptsMade (ttsLoop service maxRetries attempts bufs waited)) \<le> maxRetries + 1 \<and>
     delays (ttsLoop service maxRetries attempts bufs waited)
       = waited @ map (\<lambda>k. 2 ^ k * 1000)
           [attempts ..< attemptsMade (ttsLoop service maxRetries attempts bufs waited) - 1]"
proof (induction service maxRetries attempts bufs waited rule: ttsLoop.induct)
  case (1 service maxRetries attempts audioBuffers waited)
  show ?case
  proof (cases "service attempts")
    case (Completed bs)
    with "1.prems" show ?thesis
      by (subst (1 2 3 4) ttsLoop.simps) simp
  next
    case (Thrown bs e)
    show ?thesis
    proof (cases "int attempts < maxRetries")
      case False
      with "1.prems" Thrown show ?thesis
        by (subst (1 2 3 4) ttsLoop.simps) simp
    next
      case True
      let ?r = "ttsLoop service maxRetries (Suc attempts) (audioBuffers @ bs)
                  (waited @ [2 ^ attempts * 1000])"
      from True have "int (Suc attempts) \<le> maxRetries" by simp
      from "1.IH" [OF "1.prems" Thrown True this]
      have ih: "Suc attempts < attemptsMade ?r"
        "int (attemptsMade ?r) \<le> maxRetries + 1"
        "delays ?r = (waited @ [2 ^ attempts * 1000]) @ map (\<lambda>k. 2 ^ k * 1000)
           [Suc attempts ..< attemptsMade ?r - 1]"
        by auto
      have unfold: "ttsLoop service maxRetries attempts audioBuffers waited = ?r"
        using "1.prems" Thrown True by (subst ttsLoop.simps) simp
      have "attempts < attemptsMade ?r - 1" using ih(1) by simp
      then have "[attempts ..< attemptsMade ?r - 1]
                   = attempts # [Suc attempts ..< attemptsMade ?r - 1]"
        by (simp add: upt_conv_Cons)
      with ih show ?thesis unfolding unfold by simp
    qed
  qed
qed

lemma ttsLoop_scenarios:
  "generateTextToSpeech True (\<lambda>k. if k < 2 then Thrown [] k else Completed [7::nat]) 2
     = \<lparr>attemptsMade = 3, delays = [1000, 2000], outcome = Inr [7]\<rparr> \<and>
   generateTextToSpeech True (\<lambda>k. (Thrown [] k :: (nat, nat) attempt)) 2
     = \<lparr>attemptsMade = 3, delays = [1000, 2000], outcome = Inl (ServiceError 2)\<rparr>"
  using ttsLoop_default_retries [of "\<lambda>k. if k < 2 then Thrown [] k else Completed [7::nat]"]
    ttsLoop_default_retries [of "\<lambda>k. (Thrown [] k :: (nat, nat) attempt)"]
  by simp

text \<open>
  Claim C7 at a service whose first call throws after two buffers were decoded and whose
  second call, asked for the whole text again, completes with three: after one wait of
  1000 ms the caller gets five buffers and no error, the two of the failed call in front
  of the three of the call that succeeded.
\<close>

theorem retry_returns_buffers_of_failed_attempt:
  "generateTextToSpeech True
     (\<lambda>k. if k = 0 then Thrown [1, 2] (0::nat) else Completed [1, 2, 3::nat]) 2
   = \<lparr>attemptsMade = 2, delays = [1000], outcome = Inr [1, 2, 1, 2, 3]\<rparr>"
  using ttsLoop_default_retries
    [of "\<lambda>k. if k = 0 then Thrown [1, 2] (0::nat) else Completed [1, 2, 3::nat]"]
  by simp

section \<open>Properties of the capture pipeline\<close>

lemma ondataavailable_chunks:
  "recordedChunks (foldl ondataavailable session datas)
     = recordedChunks session @ filter (\<lambda>d. blob_size d > 0) datas"
  by (induction datas arbitrary: session) (simp_all add: ondataavailable_def)

lemma ondataavailable_codec:
  "selectedCodec (foldl ondataavailable session datas) = selectedCodec session"
  by (induction datas arbitrary: session) (simp_all add: ondataavailable_def)

lemma startRecordingVideo_session:
  "startRecordingVideo env r c b = Inr session \<Longrightarrow>
     recordedChunks session = [] \<and>
     find (\<lambda>codec. codec_value codec = c) VIDEO_CODECS = Some (selectedCodec session)"
  by (auto simp: startRecordingVideo_def Let_def split: if_splits option.splits)

lemma newBlob_size:
  "blob_size (newBlob parts ty) = sum_list (map blob_size parts)"
  by (induction parts) (simp_all add: newBlob_def blob_size_def)

text \<open>
  Claim C8. After a recording has started with a codec of the table, the chunks kept are
  the data events of positive size, in arrival order. When none was kept, stopping
  reports the error and makes no blob; otherwise it makes one blob holding the bytes of
  all chunks in order, typed with the \<open>mimeType\<close> of the selected codec. Three data
  events of 10, 20 and 30 bytes give one blob of 60 bytes.
\<close>

theorem recording_stop_result:
  assumes "startRecordingVideo env r c b = Inr session"
  shows "recordedChunks (foldl ondataavailable session datas)
           = filter (\<lambda>d. blob_size d > 0) datas \<and>
         find (\<lambda>codec. codec_value codec = c) VIDEO_CODECS = Some (selectedCodec session) \<and>
         (filter (\<lambda>d. blob_size d > 0) datas = [] \<longrightarrow>
            fst (onstop (foldl ondataavailable session datas)) = Inl NoRecordedData) \<and>
         (filter (\<lambda>d. blob_size d > 0) datas \<noteq> [] \<longrightarrow>
            fst (onstop (foldl ondataavailable session datas))
              = Inr \<lparr>blob_bytes = concat (map blob_bytes (filter (\<lambda>d. blob_size d > 0) datas)),
                     blob_type = mimeType (selectedCodec session)\<rparr>) \<and>
         (map blob_size datas = [10, 20, 30] \<longrightarrow>
            (\<exists>blob. fst (onstop (foldl ondataavailable session datas)) = Inr blob \<and>
                    blob_size blob = 60 \<and>
                    blob_bytes blob = concat (map blob_bytes datas) \<and>
                    blob_type blob = mimeType (selectedCodec session)))"
proof -
  let ?final = "foldl ondataavailable session datas"
  let ?chunks = "filter (\<lambda>d. blob_size d > 0) datas"
  from startRecordingVideo_session [OF assms]
  have empty: "recordedChunks session = []"
    and codec: "find (\<lambda>codec. codec_value codec = c) VIDEO_CODECS = Some (selectedCodec session)"
    by auto
  have chunks: "recordedChunks ?final = ?chunks"
    by (simp add: ondataavailable_chunks empty)
  have none: "?chunks = [] \<longrightarrow> fst (onstop ?final) = Inl NoRecordedData"
    by (simp add: onstop_def chunks)
  have some: "?chunks \<noteq> [] \<longrightarrow>
      fst (onstop ?final)
        = Inr \<lparr>blob_bytes = concat (map blob_bytes ?chunks),
               blob_type = mimeType (selectedCodec session)\<rparr>"
    by (simp add: onstop_def chunks newBlob_def ondataavailable_codec)
  have scenario: "map blob_size datas = [10, 20, 30] \<longrightarrow>
      (\<exists>blob. fst (onstop ?final) = Inr blob \<and> blob_size blob = 60 \<and>
              blob_bytes blob = concat (map blob_bytes datas) \<and>
              blob_type blob = mimeType (selectedCodec session))"
  proof
    assume sizes: "map blob_size datas = [10, 20, 30]"
    then obtain d1 d2 d3 where datas: "datas = [d1, d2, d3]"
      and s: "blob_size d1 = 10" "blob_size d2 = 20" "blob_size d3 = 30"
      by (auto simp: map_eq_Cons_conv)
    have all: "?chunks = datas" by (simp add: datas s)
    then have "?chunks \<noteq> []" by (simp add: datas)
    with some have "fst (onstop ?final)
        = Inr \<lparr>blob_bytes = concat (map blob_bytes datas),
               blob_type = mimeType (selectedCodec session)\<rparr>"
      by (simp add: all)
    moreover have "blob_size \<lparr>blob_bytes = concat (map blob_bytes datas),
               blob_type = mimeType (selectedCodec session)\<rparr> = 60"
      using s by (simp add: blob_size_def datas)
    ultimately show "\<exists>blob. fst (onstop ?final) = Inr blob \<and> blob_size blob = 60 \<and>
              blob_bytes blob = concat (map blob_bytes datas) \<and>
              blob_type blob = mimeType (selectedCodec session)"
      by simp
  qed
  from chunks codec none some scenario show ?thesis by blast
qed

lemma webm_start:
  "startRecordingVideo playingEnv ''720p'' ''webm'' ''2000k'' = Inr webmSession"
  by (simp add: startRecordingVideo_def playingEnv_def VIDEO_RESOLUTIONS_def
      VIDEO_CODECS_def VIDEO_BITRATES_def webmSession_def)

theorem recording_stop_result_witness:
  "startRecordingVideo playingEnv ''720p'' ''webm'' ''2000k'' = Inr webmSession \<and>
   filter (\<lambda>d. blob_size d > 0) [zeroBlob 0] = [] \<and>
   fst (onstop (foldl ondataavailable webmSession [zeroBlob 0])) = Inl NoRecordedData \<and>
   filter (\<lambda>d. blob_size d > 0) [zeroBlob 10, zeroBlob 20, zeroBlob 30] \<noteq> [] \<and>
   map blob_size [zeroBlob 10, zeroBlob 20, zeroBlob 30] = [10, 20, 30] \<and>
   (\<exists>blob. fst (onstop (foldl ondataavailable webmSession
                [zeroBlob 10, zeroBlob 20, zeroBlob 30])) = Inr blob \<and>
           blob_size blob = 60 \<and> blob_type blob = ''video/webm'')"
proof -
  have none: "filter (\<lambda>d. blob_size d > 0) [zeroBlob 0] = []"
    by (simp add: zeroBlob_def blob_size_def)
  have some: "filter (\<lambda>d. blob_size d > 0) [zeroBlob 10, zeroBlob 20, zeroBlob 30] \<noteq> []"
    by (simp add: zeroBlob_def blob_size_def)
  have sizes: "map blob_size [zeroBlob 10, zeroBlob 20, zeroBlob 30] = [10, 20, 30]"
    by (simp add: zeroBlob_def blob_size_def)
  have ty: "mimeType (selectedCodec webmSession) = ''video/webm''"
    by (simp add: webmSession_def)
  from recording_stop_result [OF webm_start, of "[zeroBlob 0]"] none
  have a: "fst (onstop (foldl ondataavailable webmSession [zeroBlob 0])) = Inl NoRecordedData"
    by blast
  from recording_stop_result [OF webm_start, of "[zeroBlob 10, zeroBlob 20, zeroBlob 30]"] sizes
  have b: "\<exists>blob. fst (onstop (foldl ondataavailable webmSession
                [zeroBlob 10, zeroBlob 20, zeroBlob 30])) = Inr blob \<and>
           blob_size blob = 60 \<and> blob_type blob = ''video/webm''"
    unfolding ty by blast
  from webm_start none a some sizes b show ?thesis by blast
qed

section \<open>Properties of the scene crossfade\<close>

lemma sceneCycle_single:
  "length (audiobookSceneImageUrls inp) \<le> 1 \<Longrightarrow> sceneCycle inp s = s"
  by (simp add: sceneCycle_def Let_def)

lemma sceneDraw_keeps_absent:
  "audiobookFadeState s = None \<Longrightarrow> audiobookFadeState (sceneDraw inp s) = None"
  by (simp add: sceneDraw_def fadeActive_def split: option.splits)

lemma animate_single:
  "length (audiobookSceneImageUrls inp) \<le> 1 \<Longrightarrow> audiobookFadeState s = None \<Longrightarrow>
     audiobookFadeState (animate inp s) = None"
  by (simp add: animate_def sceneCycle_single sceneDraw_keeps_absent)

lemma runFrames_single:
  "\<forall>inp \<in> set frames. length (audiobookSceneImageUrls inp) \<le> 1 \<Longrightarrow>
   audiobookFadeState s = None \<Longrightarrow>
     audiobookFadeState (runFrames s frames) = None"
proof (induction frames arbitrary: s)
  case Nil
  then show ?case by (simp add: runFrames_def)
next
  case (Cons inp frames)
  from Cons.prems have "audiobookFadeState (animate inp s) = None"
    by (simp add: animate_single)
  moreover from Cons.prems
  have "\<forall>inp \<in> set frames. length (audiobookSceneImageUrls inp) \<le> 1" by simp
  ultimately have "audiobookFadeState (runFrames (animate inp s) frames) = None"
    by (rule Cons.IH [rotated])
  then show ?case by (simp add: runFrames_def)
qed

text \<open>
  Claim C9. When every frame sees at most one scene image and no fade is present at the
  start, no fade is present after any number of frames, whatever the clock and the
  narration durations are.
\<close>

theorem single_image_never_fades:
  assumes "\<forall>inp \<in> set frames. length (audiobookSceneImageUrls inp) \<le> 1"
    and "audiobookFadeState s = None"
  shows "audiobookFadeState (runFrames s (take n frames)) = None \<and>
         \<not> fadeActive (runFrames s (take n frames))"
proof -
  from assms(1) have "\<forall>inp \<in> set (take n frames). length (audiobookSceneImageUrls inp) \<le> 1"
    by (meson in_set_takeD)
  from runFrames_single [OF this assms(2)] show ?thesis
    by (simp add: fadeActive_def)
qed

theorem single_image_never_fades_witness:
  "list_all (\<lambda>inp. length (audiobookSceneImageUrls inp) \<le> 1)
     [frameAt [''a.png''] 5, frameAt [''a.png''] 20] \<and>
   audiobookFadeState sceneStart = None \<and>
   audiobookFadeState
     (runFrames sceneStart (take 2 [frameAt [''a.png''] 5, frameAt [''a.png''] 20])) = None"
proof -
  have one: "\<forall>inp \<in> set [frameAt [''a.png''] 5, frameAt [''a.png''] 20].
      length (audiobookSceneImageUrls inp) \<le> 1"
    by (simp add: frameAt_def)
  have absent: "audiobookFadeState sceneStart = None"
    by (simp add: sceneStart_def)
  from single_image_never_fades [OF one absent, of 2] one absent show ?thesis
    by (simp add: list_all_iff)
qed

lemma two_images_fade:
  "fadeActive (animate (frameAt [''a.png'', ''b.png''] 5) sceneStart)"
  by (simp add: animate_def sceneCycle_def sceneDraw_def fadeActive_def frameAt_def
      sceneStart_def Let_def FADE_DURATION_SECONDS_def urlAt_def)

end
